theory Spec2Isabelle
  imports Main
begin

section \<open>Characters and digit strings\<close>

text \<open>
  File names and tool output are strings of characters with code points below 256. The
  character classes of the patterns are ranges and sets of code points, as in the regular
  expressions of the source; among these characters \<open>\d\<close> matches \<open>0\<close> to \<open>9\<close> only.
\<close>

definition chr_in :: "char \<Rightarrow> char \<Rightarrow> char \<Rightarrow> bool" where
  "chr_in lo hi c = ((of_char lo :: nat) \<le> of_char c \<and> (of_char c :: nat) \<le> of_char hi)"

definition is_digit :: "char \<Rightarrow> bool" where
  "is_digit c = chr_in (CHR ''0'') (CHR ''9'') c"

definition digit_val :: "char \<Rightarrow> nat" where
  "digit_val c = of_char c - 48"

definition is_space :: "char \<Rightarrow> bool" where
  \<comment> \<open>the characters \<open>str.strip()\<close> removes: tab, LF, VT, FF, CR, FS, GS, RS, US, space,
      NEL and the no-break space\<close>
  "is_space c = ((9::nat) \<le> of_char c \<and> (of_char c :: nat) \<le> 13
                 \<or> (28::nat) \<le> of_char c \<and> (of_char c :: nat) \<le> 32
                 \<or> of_char c = (133::nat) \<or> of_char c = (160::nat))"

definition py_strip :: "string \<Rightarrow> string" where
  "py_strip s = rev (dropWhile is_space (rev (dropWhile is_space s)))"

definition py_int :: "string \<Rightarrow> nat" where
  \<comment> \<open>\<open>int(s)\<close> on a string of decimal digits, surrounding white space ignored\<close>
  "py_int s = foldl (\<lambda>a c. 10 * a + digit_val c) 0 (py_strip s)"

definition ljust :: "nat \<Rightarrow> char \<Rightarrow> string \<Rightarrow> string" where
  "ljust n c s = s @ replicate (n - length s) c"

definition strip_non_digits :: "string \<Rightarrow> string" where
  \<comment> \<open>\<open>re.sub(r"\D", "", s)\<close>\<close>
  "strip_non_digits s = filter is_digit s"

section \<open>A backtracking matcher for the regular expressions used\<close>

datatype cclass =
    Range char char   \<comment> \<open>\<open>[a-b]\<close>; \<open>\d\<close> is \<open>[0-9]\<close>\<close>
  | OneOf string      \<comment> \<open>\<open>[abc]\<close>, or a literal character\<close>
  | Dot               \<comment> \<open>\<open>.\<close>: anything but a line feed\<close>

fun in_cclass :: "cclass \<Rightarrow> char \<Rightarrow> bool" where
  "in_cclass (Range lo hi) c = chr_in lo hi c"
| "in_cclass (OneOf cs) c = (c \<in> set cs)"
| "in_cclass Dot c = (c \<noteq> CHR 0x0A)"

datatype regex =
    Cls cclass          \<comment> \<open>one character of a class\<close>
  | Cat regex regex     \<comment> \<open>sequence\<close>
  | Alt regex regex     \<comment> \<open>\<open>a|b\<close>, the left alternative first\<close>
  | Opt regex           \<comment> \<open>greedy \<open>a?\<close>\<close>
  | Star cclass         \<comment> \<open>greedy \<open>c*\<close> over a character class\<close>
  | Group nat regex     \<comment> \<open>capturing group number n\<close>

type_synonym captures = "nat \<Rightarrow> string option"

text \<open>
  \<open>rmatch r (s, g)\<close> lists every way \<open>r\<close> matches a prefix of \<open>s\<close>, as the remaining input
  and the captures, in the order a backtracking matcher tries them: the first element is
  the match the matcher reports.
\<close>

fun rmatch :: "regex \<Rightarrow> string \<times> captures \<Rightarrow> (string \<times> captures) list" where
  "rmatch (Cls k) (s, g) =
     (case s of [] \<Rightarrow> [] | c # cs \<Rightarrow> if in_cclass k c then [(cs, g)] else [])"
| "rmatch (Cat a b) sg = concat (map (rmatch b) (rmatch a sg))"
| "rmatch (Alt a b) sg = rmatch a sg @ rmatch b sg"
| "rmatch (Opt a) sg = rmatch a sg @ [sg]"
| "rmatch (Star k) (s, g) =
     (case s of [] \<Rightarrow> [(s, g)]
      | c # cs \<Rightarrow> if in_cclass k c then rmatch (Star k) (cs, g) @ [(s, g)] else [(s, g)])"
| "rmatch (Group n a) (s, g) =
     map (\<lambda>(r, g'). (r, g'(n \<mapsto> take (length s - length r) s))) (rmatch a (s, g))"

definition re_match :: "regex \<Rightarrow> string \<Rightarrow> (string \<times> captures) option" where
  \<comment> \<open>\<open>re.match\<close>: anchored at the start; the remaining input and the groups\<close>
  "re_match p s = (case rmatch p (s, Map.empty) of [] \<Rightarrow> None | m # _ \<Rightarrow> Some m)"

fun re_search :: "regex \<Rightarrow> string \<Rightarrow> captures option" where
  \<comment> \<open>\<open>re.search\<close>: the match at the leftmost position that has one\<close>
  "re_search p [] = map_option snd (re_match p [])"
| "re_search p (c # cs) =
     (case re_match p (c # cs) of Some m \<Rightarrow> Some (snd m) | None \<Rightarrow> re_search p cs)"

definition digit :: regex where
  \<comment> \<open>\<open>\d\<close>\<close>
  "digit = Cls (Range (CHR ''0'') (CHR ''9''))"

definition sep :: regex where
  \<comment> \<open>\<open>[-._]\<close>\<close>
  "sep = Cls (OneOf ''-._'')"

definition sep_d2_sep_d2 :: regex where
  \<comment> \<open>\<open>[-._]?\d{2}[-._]?\d{2}\<close>\<close>
  "sep_d2_sep_d2 = Cat (Opt sep) (Cat digit (Cat digit (Cat (Opt sep) (Cat digit digit))))"

definition date_re :: regex where
  \<comment> \<open>\<open>\d{4}[-._]?\d{2}[-._]?\d{2}\<close>\<close>
  "date_re = Cat digit (Cat digit (Cat digit (Cat digit sep_d2_sep_d2)))"

definition time_re :: regex where
  \<comment> \<open>\<open>\d{2}[-._]?\d{2}[-._]?\d{2}\<close>\<close>
  "time_re = Cat digit (Cat digit sep_d2_sep_d2)"

definition pattern :: regex where
  \<comment> \<open>\<open>(\d{4}[-._]?\d{2}[-._]?\d{2})(?:.*(\d{2}[-._]?\d{2}[-._]?\d{2}))?\<close>\<close>
  "pattern = Cat (Group 1 date_re) (Opt (Cat (Star Dot) (Group 2 time_re)))"

section \<open>Calendar timestamps and \<open>datetime.strptime\<close>\<close>

record datetime =
  year :: nat
  month :: nat
  day :: nat
  hour :: nat
  minute :: nat
  second :: nat

definition is_leap :: "nat \<Rightarrow> bool" where
  "is_leap y = (y mod 4 = 0 \<and> (y mod 100 \<noteq> 0 \<or> y mod 400 = 0))"

definition days_in_month :: "nat \<Rightarrow> nat \<Rightarrow> nat" where
  "days_in_month y m =
     (if m = 2 then (if is_leap y then 29 else 28)
      else if m = 4 \<or> m = 6 \<or> m = 9 \<or> m = 11 then 30 else 31)"

definition valid_date :: "nat \<Rightarrow> nat \<Rightarrow> nat \<Rightarrow> bool" where
  "valid_date y m d = (1 \<le> y \<and> y \<le> 9999 \<and> 1 \<le> m \<and> m \<le> 12 \<and> 1 \<le> d \<and> d \<le> days_in_month y m)"

definition valid_time :: "nat \<Rightarrow> nat \<Rightarrow> nat \<Rightarrow> bool" where
  "valid_time H M S = (H \<le> 23 \<and> M \<le> 59 \<and> S \<le> 59)"

definition mk_datetime :: "nat \<Rightarrow> nat \<Rightarrow> nat \<Rightarrow> nat \<Rightarrow> nat \<Rightarrow> nat \<Rightarrow> datetime option" where
  \<comment> \<open>the constructor \<open>datetime(y, m, d, H, M, S)\<close>; \<open>None\<close> is its \<open>ValueError\<close>\<close>
  "mk_datetime y m d H M S =
     (if valid_date y m d \<and> valid_time H M S
      then Some \<lparr>year = y, month = m, day = d, hour = H, minute = M, second = S\<rparr>
      else None)"

text \<open>
  \<open>strptime\<close> turns each directive of the format into a group of a regular expression,
  matches it at the start of the text, rejects a match that leaves text over, converts the
  groups with \<open>int\<close> and builds the timestamp; every failure is a \<open>ValueError\<close>, here
  \<open>None\<close>.
\<close>

definition lit2 :: "char \<Rightarrow> char \<Rightarrow> char \<Rightarrow> char \<Rightarrow> regex" where
  \<comment> \<open>\<open>[a-b][c-d]\<close>\<close>
  "lit2 a b c d = Cat (Cls (Range a b)) (Cls (Range c d))"

definition re_Y :: regex where
  \<comment> \<open>\<open>\d\d\d\d\<close>\<close>
  "re_Y = Cat digit (Cat digit (Cat digit digit))"

definition re_m :: regex where
  \<comment> \<open>\<open>1[0-2]|0[1-9]|[1-9]\<close>\<close>
  "re_m = Alt (lit2 (CHR ''1'') (CHR ''1'') (CHR ''0'') (CHR ''2''))
         (Alt (lit2 (CHR ''0'') (CHR ''0'') (CHR ''1'') (CHR ''9''))
              (Cls (Range (CHR ''1'') (CHR ''9''))))"

definition re_d :: regex where
  \<comment> \<open>\<open>3[0-1]|[1-2]\d|0[1-9]|[1-9]| [1-9]\<close>\<close>
  "re_d = Alt (lit2 (CHR ''3'') (CHR ''3'') (CHR ''0'') (CHR ''1''))
         (Alt (lit2 (CHR ''1'') (CHR ''2'') (CHR ''0'') (CHR ''9''))
         (Alt (lit2 (CHR ''0'') (CHR ''0'') (CHR ''1'') (CHR ''9''))
         (Alt (Cls (Range (CHR ''1'') (CHR ''9'')))
              (lit2 (CHR '' '') (CHR '' '') (CHR ''1'') (CHR ''9'')))))"

definition re_H :: regex where
  \<comment> \<open>\<open>2[0-3]|[0-1]\d|\d\<close>\<close>
  "re_H = Alt (lit2 (CHR ''2'') (CHR ''2'') (CHR ''0'') (CHR ''3''))
         (Alt (lit2 (CHR ''0'') (CHR ''1'') (CHR ''0'') (CHR ''9'')) digit)"

definition re_M :: regex where
  \<comment> \<open>\<open>[0-5]\d|\d\<close>\<close>
  "re_M = Alt (lit2 (CHR ''0'') (CHR ''5'') (CHR ''0'') (CHR ''9'')) digit"

definition re_S :: regex where
  \<comment> \<open>\<open>6[0-1]|[0-5]\d|\d\<close>\<close>
  "re_S = Alt (lit2 (CHR ''6'') (CHR ''6'') (CHR ''0'') (CHR ''1''))
         (Alt (lit2 (CHR ''0'') (CHR ''5'') (CHR ''0'') (CHR ''9'')) digit)"

definition fmt_Ymd :: regex where
  \<comment> \<open>the format \<open>%Y%m%d\<close>\<close>
  "fmt_Ymd = Cat (Group 1 re_Y) (Cat (Group 2 re_m) (Group 3 re_d))"

definition fmt_YmdHMS :: regex where
  \<comment> \<open>the format \<open>%Y%m%d%H%M%S\<close>\<close>
  "fmt_YmdHMS = Cat (Group 1 re_Y) (Cat (Group 2 re_m) (Cat (Group 3 re_d)
                 (Cat (Group 4 re_H) (Cat (Group 5 re_M) (Group 6 re_S)))))"

definition field :: "captures \<Rightarrow> nat \<Rightarrow> nat" where
  \<comment> \<open>\<open>int(found_dict[...])\<close>; hour, minute and second are 0 when the format has no
      directive for them\<close>
  "field g n = (case g n of None \<Rightarrow> 0 | Some s \<Rightarrow> py_int s)"

definition strptime :: "regex \<Rightarrow> string \<Rightarrow> datetime option" where
  "strptime fmt s =
     (case re_match fmt s of
        None \<Rightarrow> None
      | Some (rest, g) \<Rightarrow>
          if rest \<noteq> [] then None
          else mk_datetime (field g 1) (field g 2) (field g 3) (field g 4) (field g 5) (field g 6))"

section \<open>The timestamp extractor\<close>

definition extract_datetime_from_filename :: "string \<Rightarrow> datetime option" where
  "extract_datetime_from_filename filename =
     (case re_search pattern filename of
        None \<Rightarrow> None
      | Some g \<Rightarrow>
          (case g 1 of
             None \<Rightarrow> None
           | Some date_str \<Rightarrow>
               let cleaned_date_str = strip_non_digits date_str;
                   combined =
                     (case g 2 of
                        None \<Rightarrow> None
                      | Some time_str \<Rightarrow>
                          if time_str = [] then None
                          else strptime fmt_YmdHMS
                                 (cleaned_date_str @ ljust 6 (CHR ''0'') (strip_non_digits time_str)))
               in (case combined of
                     Some dt \<Rightarrow> Some dt
                   | None \<Rightarrow> strptime fmt_Ymd cleaned_date_str)))"

section \<open>The batch processor\<close>

text \<open>
  The processor talks to the world through \<open>os.makedirs\<close>, \<open>os.listdir\<close>,
  \<open>shutil.move\<close>, \<open>shutil.copy2\<close> and two runs of the metadata tool. Each call it issues
  is recorded in a trace, and an environment answers it; the answer may depend on
  everything issued before.
\<close>

datatype action =
    Makedirs string              \<comment> \<open>\<open>os.makedirs(path, exist_ok=True)\<close>\<close>
  | Query string                 \<comment> \<open>the tool asked for the two date fields of a file\<close>
  | Move string string           \<comment> \<open>\<open>shutil.move(src, dst)\<close>\<close>
  | Copy2 string string          \<comment> \<open>\<open>shutil.copy2(src, dst)\<close>\<close>
  | Write string string string   \<comment> \<open>the tool run on a path with \<open>-overwrite_original\<close>,
                                     \<open>-CreateDate=\<close> and \<open>-DateTimeOriginal=\<close> values\<close>

record completed_process =
  returncode :: int
  stdout :: string
  stderr :: string

record env =
  listdir :: "string \<Rightarrow> string list option"
    \<comment> \<open>the entries of a directory; \<open>None\<close> when \<open>os.listdir\<close> raises\<close>
  fs_call :: "action list \<Rightarrow> action \<Rightarrow> bool"
    \<comment> \<open>whether a file-system call returns (\<open>True\<close>) or raises (\<open>False\<close>), after the calls before it\<close>
  run_tool :: "action list \<Rightarrow> action \<Rightarrow> completed_process option"
    \<comment> \<open>\<open>subprocess.run\<close> of the tool: its completed process, or \<open>None\<close> when the call
        itself raises, as it does when the tool cannot be started\<close>

datatype py_error =
    TypeError   \<comment> \<open>\<open>os.path.join\<close> given \<open>None\<close>\<close>
  | OSError     \<comment> \<open>an external call that raised; nothing in the processor catches it\<close>

record pstate =
  total_files :: nat
  files_changed :: nat
  files_skipped_no_date :: nat
  files_skipped_existing_metadata :: nat
  files_metadata_replaced :: nat
  files_error :: nat
  trace :: "action list"

type_synonym result = "(py_error \<times> pstate) + pstate"

definition path_join :: "string \<Rightarrow> string \<Rightarrow> string" where
  \<comment> \<open>\<open>os.path.join(a, b)\<close> of \<open>posixpath\<close>\<close>
  "path_join a b =
     (if b \<noteq> [] \<and> hd b = CHR ''/'' then b
      else if a = [] \<or> last a = CHR ''/'' then a @ b
      else a @ ''/'' @ b)"

definition digit_chr :: "nat \<Rightarrow> char" where
  "digit_chr n = char_of (48 + n mod 10)"

definition pad2 :: "nat \<Rightarrow> string" where
  "pad2 n = [digit_chr (n div 10), digit_chr n]"

definition pad4 :: "nat \<Rightarrow> string" where
  "pad4 n = [digit_chr (n div 1000), digit_chr (n div 100), digit_chr (n div 10), digit_chr n]"

definition strftime_date :: "datetime \<Rightarrow> string" where
  \<comment> \<open>\<open>date_obj.strftime("%Y:%m:%d 00:00:00")\<close>; the year is written with four digits, as
      the documentation of \<open>%Y\<close> has it (a C library may drop leading zeros of a year
      before 1000)\<close>
  "strftime_date dt = pad4 (year dt) @ '':'' @ pad2 (month dt) @ '':'' @ pad2 (day dt) @ '' 00:00:00''"

definition issue :: "action \<Rightarrow> pstate \<Rightarrow> pstate" where
  "issue a st = st\<lparr>trace := trace st @ [a]\<rparr>"

definition write_metadata :: "env \<Rightarrow> bool \<Rightarrow> string \<Rightarrow> string \<Rightarrow> string \<Rightarrow> pstate \<Rightarrow> result" where
  \<comment> \<open>lines 109 to 129: the write, and the counter it decides\<close>
  "write_metadata e replace_old_metadata out output_file exif_date st =
     (let command = Write output_file exif_date exif_date in
      case run_tool e (trace st) command of
        None \<Rightarrow> Inl (OSError, issue command st)
      | Some done \<Rightarrow>
          if returncode done \<noteq> 0
          then Inr ((issue command st)\<lparr>files_error := files_error st + 1\<rparr>)
          else if py_strip out \<noteq> [] \<and> replace_old_metadata
          then Inr ((issue command st)\<lparr>files_metadata_replaced := files_metadata_replaced st + 1\<rparr>)
          else Inr ((issue command st)\<lparr>files_changed := files_changed st + 1\<rparr>))"

definition place_file :: "env \<Rightarrow> bool \<Rightarrow> bool \<Rightarrow> string \<Rightarrow> string \<Rightarrow> pstate \<Rightarrow> result" where
  \<comment> \<open>lines 100 to 107: copy or move unless in place\<close>
  "place_file e move in_place input_file output_file st =
     (if \<not> in_place then
        (let a = (if move then Move input_file output_file else Copy2 input_file output_file)
         in if fs_call e (trace st) a then Inr (issue a st) else Inl (OSError, issue a st))
      else Inr st)"

definition process_file ::
  "env \<Rightarrow> string \<Rightarrow> string option \<Rightarrow> bool \<Rightarrow> bool \<Rightarrow> bool \<Rightarrow> string \<Rightarrow> pstate \<Rightarrow> result" where
  \<comment> \<open>one iteration of the loop, lines 68 to 129\<close>
  "process_file e directory processed_dir move in_place replace_old_metadata filename st0 =
     (let st1 = st0\<lparr>total_files := total_files st0 + 1\<rparr>;
          input_file = path_join directory filename
      in case (if \<not> in_place then map_option (\<lambda>p. path_join p filename) processed_dir
               else Some input_file) of
           None \<Rightarrow> Inl (TypeError, st1)
         | Some output_file \<Rightarrow>
            (case extract_datetime_from_filename filename of
               None \<Rightarrow> Inr (st1\<lparr>files_skipped_no_date := files_skipped_no_date st1 + 1\<rparr>)
             | Some date_obj \<Rightarrow>
                (let exif_date = strftime_date date_obj;
                     check_command = Query input_file
                 in case run_tool e (trace st1) check_command of
                      None \<Rightarrow> Inl (OSError, issue check_command st1)
                    | Some res \<Rightarrow>
                       (let st2 = issue check_command st1
                        in if py_strip (stdout res) \<noteq> [] \<and> \<not> replace_old_metadata
                           then Inr (st2\<lparr>files_skipped_existing_metadata :=
                                          files_skipped_existing_metadata st2 + 1\<rparr>)
                           else (case place_file e move in_place input_file output_file st2 of
                                   Inl err \<Rightarrow> Inl err
                                 | Inr st3 \<Rightarrow>
                                     write_metadata e replace_old_metadata (stdout res)
                                       output_file exif_date st3)))))"

fun process_entries ::
  "env \<Rightarrow> string \<Rightarrow> string option \<Rightarrow> bool \<Rightarrow> bool \<Rightarrow> bool \<Rightarrow> string list \<Rightarrow> pstate \<Rightarrow> result" where
  \<comment> \<open>the \<open>for\<close> loop over the directory listing; an exception ends it\<close>
  "process_entries e directory processed_dir move in_place replace_old_metadata [] st = Inr st"
| "process_entries e directory processed_dir move in_place replace_old_metadata (filename # rest) st =
     (case process_file e directory processed_dir move in_place replace_old_metadata filename st of
        Inl err \<Rightarrow> Inl err
      | Inr st' \<Rightarrow> process_entries e directory processed_dir move in_place replace_old_metadata rest st')"

definition initial_state :: pstate where
  "initial_state = \<lparr>total_files = 0, files_changed = 0, files_skipped_no_date = 0,
     files_skipped_existing_metadata = 0, files_metadata_replaced = 0, files_error = 0,
     trace = []\<rparr>"

definition make_destination :: "env \<Rightarrow> string option \<Rightarrow> bool \<Rightarrow> result" where
  \<comment> \<open>lines 55 to 65: \<open>if not in_place and processed_dir: os.makedirs(...)\<close>, then fresh counters\<close>
  "make_destination e processed_dir in_place =
     (case processed_dir of
        None \<Rightarrow> Inr initial_state
      | Some p \<Rightarrow>
          if \<not> in_place \<and> p \<noteq> []
          then (if fs_call e [] (Makedirs p) then Inr (issue (Makedirs p) initial_state)
                else Inl (OSError, issue (Makedirs p) initial_state))
          else Inr initial_state)"

definition process_images ::
  "env \<Rightarrow> string \<Rightarrow> string option \<Rightarrow> bool \<Rightarrow> bool \<Rightarrow> bool \<Rightarrow> result" where
  "process_images e directory processed_dir move in_place replace_old_metadata =
     (case make_destination e processed_dir in_place of
        Inl err \<Rightarrow> Inl err
      | Inr st \<Rightarrow>
         (case listdir e directory of
            None \<Rightarrow> Inl (OSError, st)
          | Some entries \<Rightarrow>
              process_entries e directory processed_dir move in_place replace_old_metadata entries st))"

section \<open>Notions used to state the properties\<close>

text \<open>
  The shape of the tokens, read off the pattern without the matcher: a date token is four
  digits, an optional separator, two digits, an optional separator, two digits; a time
  token has two digits in place of the four. Each function returns what follows the token
  when its argument starts with one.
\<close>

definition is_sep :: "char \<Rightarrow> bool" where
  "is_sep c = (c \<in> set ''-._'')"

definition digits :: "nat \<Rightarrow> string \<Rightarrow> bool" where
  \<comment> \<open>exactly \<open>n\<close> digits\<close>
  "digits n s = (length s = n \<and> list_all is_digit s)"

fun opt_sep :: "string \<Rightarrow> bool" where
  \<comment> \<open>nothing, or one separator\<close>
  "opt_sep [] = True"
| "opt_sep [c] = is_sep c"
| "opt_sep _ = False"

fun skip_sep :: "string \<Rightarrow> string" where
  "skip_sep [] = []"
| "skip_sep (c # cs) = (if is_sep c then cs else c # cs)"

fun take2 :: "string \<Rightarrow> string option" where
  "take2 (a # b # r) = (if is_digit a \<and> is_digit b then Some r else None)"
| "take2 _ = None"

definition tail_end :: "string \<Rightarrow> string option" where
  "tail_end s = Option.bind (take2 (skip_sep s)) (\<lambda>r. take2 (skip_sep r))"

definition date_end :: "string \<Rightarrow> string option" where
  "date_end s = Option.bind (take2 s) (\<lambda>r. Option.bind (take2 r) tail_end)"

definition time_end :: "string \<Rightarrow> string option" where
  "time_end s = Option.bind (take2 s) tail_end"

fun time_follows :: "string \<Rightarrow> bool" where
  \<comment> \<open>a time token starts somewhere in the text, with no line feed before it\<close>
  "time_follows [] = False"
| "time_follows (c # cs) = (c \<noteq> CHR 0x0A \<and> time_follows cs \<or> time_end (c # cs) \<noteq> None)"

fun no_date_within :: "string \<Rightarrow> string \<Rightarrow> bool" where
  \<comment> \<open>no date token starts inside \<open>pre\<close>, when \<open>rest\<close> follows it\<close>
  "no_date_within [] rest = True"
| "no_date_within (c # cs) rest = (date_end (c # cs @ rest) = None \<and> no_date_within cs rest)"

definition time_part :: regex where
  \<comment> \<open>the body of the optional group of the pattern, \<open>.*(\d{2}[-._]?\d{2}[-._]?\d{2})\<close>\<close>
  "time_part = Cat (Star Dot) (Group 2 time_re)"






definition output_path :: "string \<Rightarrow> string option \<Rightarrow> bool \<Rightarrow> string \<Rightarrow> string option" where
  \<comment> \<open>the path the metadata is written to; \<open>None\<close> when there is no destination to join\<close>
  "output_path directory processed_dir in_place filename =
     (if in_place then Some (path_join directory filename)
      else map_option (\<lambda>p. path_join p filename) processed_dir)"

definition placement :: "bool \<Rightarrow> bool \<Rightarrow> string \<Rightarrow> string \<Rightarrow> action list" where
  \<comment> \<open>the file-system calls of the placement step\<close>
  "placement move in_place input_file output_file =
     (if in_place then []
      else if move then [Move input_file output_file] else [Copy2 input_file output_file])"

definition outcome_sum :: "pstate \<Rightarrow> nat" where
  "outcome_sum st = files_changed st + files_metadata_replaced st + files_skipped_no_date st
                    + files_skipped_existing_metadata st + files_error st"

definition final_state :: "result \<Rightarrow> pstate" where
  \<comment> \<open>the counters and the trace when the run ended, normally or by an exception\<close>
  "final_state r = (case r of Inl (err, st) \<Rightarrow> st | Inr st \<Rightarrow> st)"

definition test_env :: "string list \<Rightarrow> string \<Rightarrow> int \<Rightarrow> env" where
  \<comment> \<open>an environment for examples: a fixed listing, file-system calls that succeed, a tool
      that prints \<open>out\<close> when queried and ends a write with status \<open>rc\<close>\<close>
  "test_env entries out rc =
     \<lparr>listdir = (\<lambda>d. Some entries), fs_call = (\<lambda>t a. True),
      run_tool = (\<lambda>t a. Some \<lparr>returncode = (case a of Write _ _ _ \<Rightarrow> rc | _ \<Rightarrow> 0),
                                 stdout = out, stderr = []\<rparr>)\<rparr>"

section \<open>The pattern: what the matcher accepts\<close>

lemma digit_not_sep: "is_digit c \<Longrightarrow> \<not> is_sep c"
  by (auto simp: is_digit_def is_sep_def chr_in_def)

lemma rmatch_digit [simp]:
  "rmatch digit ([], g) = []"
  "rmatch digit (c # cs, g) = (if is_digit c then [(cs, g)] else [])"
  by (simp_all add: digit_def is_digit_def)

lemma rmatch_sep [simp]:
  "rmatch sep ([], g) = []"
  "rmatch sep (c # cs, g) = (if is_sep c then [(cs, g)] else [])"
  by (simp_all add: sep_def is_sep_def)

lemma rmatch_d2_then:
  "rmatch (Cat digit (Cat digit R)) (s, g) = (case take2 s of None \<Rightarrow> [] | Some r \<Rightarrow> rmatch R (r, g))"
  by (cases s rule: take2.cases) auto

lemma rmatch_d2:
  "rmatch (Cat digit digit) (s, g) = (case take2 s of None \<Rightarrow> [] | Some r \<Rightarrow> [(r, g)])"
  by (cases s rule: take2.cases) auto

lemma rmatch_optsep_digit:
  "rmatch (Cat (Opt sep) (Cat digit R)) (s, g) = rmatch (Cat digit R) (skip_sep s, g)"
proof (cases s)
  case Nil
  then show ?thesis by simp
next
  case (Cons c cs)
  show ?thesis
  proof (cases "is_sep c")
    case True
    then have "\<not> is_digit c" using digit_not_sep by blast
    with True Cons show ?thesis by simp
  next
    case False
    with Cons show ?thesis by simp
  qed
qed

lemma rmatch_tail:
  "rmatch sep_d2_sep_d2 (s, g) = (case tail_end s of None \<Rightarrow> [] | Some r \<Rightarrow> [(r, g)])"
  unfolding sep_d2_sep_d2_def tail_end_def
  by (simp del: rmatch.simps add: rmatch_optsep_digit rmatch_d2_then rmatch_d2
           split: option.splits Option.bind_splits)

lemma rmatch_date_re:
  "rmatch date_re (s, g) = (case date_end s of None \<Rightarrow> [] | Some r \<Rightarrow> [(r, g)])"
  unfolding date_re_def date_end_def
  by (simp del: rmatch.simps add: rmatch_d2_then rmatch_tail split: option.splits Option.bind_splits)

lemma rmatch_time_re:
  "rmatch time_re (s, g) = (case time_end s of None \<Rightarrow> [] | Some r \<Rightarrow> [(r, g)])"
  unfolding time_re_def time_end_def
  by (simp del: rmatch.simps add: rmatch_d2_then rmatch_tail split: option.splits Option.bind_splits)

text \<open>Tokens of the right shape are accepted, and what is accepted has that shape.\<close>

lemma digits2E:
  assumes "digits 2 s"
  obtains a b where "s = [a, b]" "is_digit a" "is_digit b"
proof -
  from assms have "length s = 2" by (simp add: digits_def)
  then obtain a b where "s = [a, b]"
    by (cases s; cases "tl s") auto
  with assms that show ?thesis by (simp add: digits_def)
qed

lemma digits4E:
  assumes "digits 4 s"
  obtains y m where "s = y @ m" "digits 2 y" "digits 2 m"
proof -
  from assms have "s = take 2 s @ drop 2 s" "digits 2 (take 2 s)" "digits 2 (drop 2 s)"
    by (auto simp: digits_def list_all_iff dest: in_set_takeD in_set_dropD)
  with that show ?thesis by metis
qed

lemma opt_sepE:
  assumes "opt_sep s"
  obtains "s = []" | c where "s = [c]" "is_sep c"
  using assms by (cases s rule: opt_sep.cases) auto

lemma take2_digits: "digits 2 m \<Longrightarrow> take2 (m @ r) = Some r"
  by (erule digits2E) simp

lemma skip_sep_digits: "opt_sep s \<Longrightarrow> digits 2 m \<Longrightarrow> skip_sep (s @ m @ r) = m @ r"
  by (erule opt_sepE; erule digits2E) (simp_all add: digit_not_sep)

lemma tail_end_token:
  "opt_sep s1 \<Longrightarrow> digits 2 m \<Longrightarrow> opt_sep s2 \<Longrightarrow> digits 2 d
   \<Longrightarrow> tail_end (s1 @ m @ s2 @ d @ r) = Some r"
  by (simp add: tail_end_def skip_sep_digits take2_digits)

lemma time_end_token:
  "digits 2 h \<Longrightarrow> opt_sep s1 \<Longrightarrow> digits 2 m \<Longrightarrow> opt_sep s2 \<Longrightarrow> digits 2 d
   \<Longrightarrow> time_end (h @ s1 @ m @ s2 @ d @ r) = Some r"
  by (simp add: time_end_def take2_digits tail_end_token)

lemma date_end_token:
  "digits 4 y \<Longrightarrow> opt_sep s1 \<Longrightarrow> digits 2 m \<Longrightarrow> opt_sep s2 \<Longrightarrow> digits 2 d
   \<Longrightarrow> date_end (y @ s1 @ m @ s2 @ d @ r) = Some r"
  by (erule digits4E) (simp add: date_end_def take2_digits tail_end_token)

lemma take2_shape:
  assumes "take2 s = Some r"
  obtains m where "s = m @ r" "digits 2 m"
proof -
  from assms obtain a b where "s = [a, b] @ r" "is_digit a" "is_digit b"
    by (cases s rule: take2.cases) (auto split: if_splits)
  then show ?thesis using that [of "[a, b]"] by (simp add: digits_def)
qed

lemma skip_sep_shape:
  obtains p where "s = p @ skip_sep s" "opt_sep p"
proof (cases s)
  case Nil
  then show ?thesis using that [of "[]"] by simp
next
  case (Cons c cs)
  then show ?thesis using that [of "[c]"] that [of "[]"] by (cases "is_sep c") auto
qed

lemma tail_end_shape:
  assumes "tail_end s = Some r"
  obtains s1 m s2 d where "s = s1 @ m @ s2 @ d @ r" "opt_sep s1" "digits 2 m" "opt_sep s2" "digits 2 d"
proof -
  from assms obtain r1 where a: "take2 (skip_sep s) = Some r1" and b: "take2 (skip_sep r1) = Some r"
    by (auto simp: tail_end_def split: Option.bind_splits)
  obtain s1 where s1: "s = s1 @ skip_sep s" "opt_sep s1" by (rule skip_sep_shape)
  obtain s2 where s2: "r1 = s2 @ skip_sep r1" "opt_sep s2" by (rule skip_sep_shape)
  from a obtain m where m: "skip_sep s = m @ r1" "digits 2 m" by (rule take2_shape)
  from b obtain d where d: "skip_sep r1 = d @ r" "digits 2 d" by (rule take2_shape)
  from s1 s2 m d have "s = s1 @ m @ s2 @ d @ r" by metis
  with s1 s2 m d that show ?thesis by blast
qed

lemma time_end_shape:
  assumes "time_end s = Some r"
  obtains h s1 m s2 d where "s = h @ s1 @ m @ s2 @ d @ r"
    "digits 2 h" "opt_sep s1" "digits 2 m" "opt_sep s2" "digits 2 d"
proof -
  from assms obtain r1 where a: "take2 s = Some r1" and b: "tail_end r1 = Some r"
    by (auto simp: time_end_def split: Option.bind_splits)
  from a obtain h where h: "s = h @ r1" "digits 2 h" by (rule take2_shape)
  from b obtain s1 m s2 d where
    t: "r1 = s1 @ m @ s2 @ d @ r" "opt_sep s1" "digits 2 m" "opt_sep s2" "digits 2 d"
    by (rule tail_end_shape)
  from h t that show ?thesis by blast
qed

lemma date_end_shape:
  assumes "date_end s = Some r"
  obtains y s1 m s2 d where "s = y @ s1 @ m @ s2 @ d @ r"
    "digits 4 y" "opt_sep s1" "digits 2 m" "opt_sep s2" "digits 2 d"
proof -
  from assms obtain r1 r2 where a: "take2 s = Some r1" and b: "take2 r1 = Some r2"
    and c: "tail_end r2 = Some r"
    by (auto simp: date_end_def split: Option.bind_splits)
  from a obtain y1 where y1: "s = y1 @ r1" "digits 2 y1" by (rule take2_shape)
  from b obtain y2 where y2: "r1 = y2 @ r2" "digits 2 y2" by (rule take2_shape)
  from c obtain s1 m s2 d where
    t: "r2 = s1 @ m @ s2 @ d @ r" "opt_sep s1" "digits 2 m" "opt_sep s2" "digits 2 d"
    by (rule tail_end_shape)
  from y1 y2 have "digits 4 (y1 @ y2)" by (simp add: digits_def)
  moreover from y1 y2 t have "s = (y1 @ y2) @ s1 @ m @ s2 @ d @ r" by simp
  ultimately show ?thesis using t that by blast
qed






lemma foreign_separator:
  assumes "\<not> is_digit c" "\<not> is_sep c"
  shows "tail_end (c # r) = None"
    and "opt_sep s1 \<Longrightarrow> digits 2 m \<Longrightarrow> tail_end (s1 @ m @ c # r) = None"
proof -
  have s: "skip_sep (c # r) = c # r" using assms(2) by simp
  have t: "take2 (c # r) = None" using assms(1) by (cases r) simp_all
  show "tail_end (c # r) = None" by (simp add: tail_end_def s t del: skip_sep.simps)
  assume "opt_sep s1" "digits 2 m"
  then have "take2 (skip_sep (s1 @ m @ c # r)) = Some (c # r)"
    by (simp add: skip_sep_digits take2_digits)
  then show "tail_end (s1 @ m @ c # r) = None"
    by (simp add: tail_end_def s t del: skip_sep.simps)
qed

section \<open>The pattern: groups and search\<close>

lemma rmatch_group_date:
  "rmatch (Group n date_re) (s, g) =
     (case date_end s of None \<Rightarrow> [] | Some r \<Rightarrow> [(r, g(n \<mapsto> take (length s - length r) s))])"
  by (simp del: rmatch.simps add: rmatch.simps(6) rmatch_date_re split: option.splits)

lemma rmatch_group_time:
  "rmatch (Group n time_re) (s, g) =
     (case time_end s of None \<Rightarrow> [] | Some r \<Rightarrow> [(r, g(n \<mapsto> take (length s - length r) s))])"
  by (simp del: rmatch.simps add: rmatch.simps(6) rmatch_time_re split: option.splits)

lemma rmatch_star_then:
  "rmatch (Cat (Star k) R) ([], g) = rmatch R ([], g)"
  "rmatch (Cat (Star k) R) (c # cs, g) =
     (if in_cclass k c then rmatch (Cat (Star k) R) (cs, g) else []) @ rmatch R (c # cs, g)"
  by simp_all

lemma time_part_nil: "rmatch time_part ([], g) = []"
  unfolding time_part_def rmatch_star_then
  by (simp del: rmatch.simps add: rmatch_group_time time_end_def)

lemma time_part_cons:
  "rmatch time_part (c # cs, g) =
     (if c \<noteq> CHR 0x0A then rmatch time_part (cs, g) else [])
     @ rmatch (Group 2 time_re) (c # cs, g)"
  unfolding time_part_def rmatch_star_then by simp

lemma time_part_empty_iff: "rmatch time_part (s, g) = [] \<longleftrightarrow> \<not> time_follows s"
proof (induction s)
  case Nil
  show ?case by (simp add: time_part_nil)
next
  case (Cons c cs)
  then show ?case
    by (auto simp del: rmatch.simps simp add: time_part_cons rmatch_group_time split: option.splits)
qed

lemma time_part_captures:
  assumes "(r, g') \<in> set (rmatch time_part (s, g))"
  shows "\<exists>t. g' = g(2 \<mapsto> t) \<and> time_end (t @ r) = Some r"
  using assms
proof (induction s)
  case Nil
  then show ?case by (simp add: time_part_nil)
next
  case (Cons c cs)
  from Cons.prems consider "(r, g') \<in> set (rmatch time_part (cs, g))"
    | "(r, g') \<in> set (rmatch (Group 2 time_re) (c # cs, g))"
    by (auto simp del: rmatch.simps simp add: time_part_cons split: if_splits)
  then show ?case
  proof cases
    case 1
    then show ?thesis by (rule Cons.IH)
  next
    case 2
    then have e: "time_end (c # cs) = Some r"
      and g': "g' = g(2 \<mapsto> take (length (c # cs) - length r) (c # cs))"
      by (auto simp del: rmatch.simps simp add: rmatch_group_time split: option.splits)
    from e obtain h s1 m s2 d where sh: "c # cs = h @ s1 @ m @ s2 @ d @ r"
      by (rule time_end_shape)
    then have "c # cs = (h @ s1 @ m @ s2 @ d) @ r" by simp
    then have "take (length (c # cs) - length r) (c # cs) = h @ s1 @ m @ s2 @ d"
      by (metis append_eq_conv_conj length_append add_diff_cancel_right')
    with e g' sh show ?thesis by (metis append.assoc)
  qed
qed

lemma rmatch_pattern:
  "rmatch pattern (s, g) =
     (case date_end s of
        None \<Rightarrow> []
      | Some r \<Rightarrow> rmatch time_part (r, g(1 \<mapsto> take (length s - length r) s))
                  @ [(r, g(1 \<mapsto> take (length s - length r) s))])"
  unfolding pattern_def rmatch.simps(2) rmatch_group_date time_part_def [symmetric]
  by (simp del: rmatch.simps add: rmatch.simps(4) split: option.splits)

lemma re_match_pattern_None: "re_match pattern s = None \<longleftrightarrow> date_end s = None"
  by (simp del: rmatch.simps add: re_match_def rmatch_pattern split: option.splits list.splits)


lemma re_match_pattern_Some:
  assumes "re_match pattern s = Some (r, g)"
  obtains tok r0 where "s = tok @ r0" "date_end s = Some r0" "g 1 = Some tok"
    and "g 2 = None \<and> \<not> time_follows r0 \<and> r = r0 \<or> (\<exists>t. g 2 = Some t \<and> time_end (t @ r) = Some r)"
proof -
  from assms obtain r0 where d: "date_end s = Some r0"
    by (cases "date_end s") (auto simp del: rmatch.simps simp add: re_match_def rmatch_pattern)
  from d obtain y s1 m s2 dd where "s = y @ s1 @ m @ s2 @ dd @ r0" by (rule date_end_shape)
  then obtain tok where tok: "s = tok @ r0" by (metis append.assoc)
  let ?g1 = "Map.empty(1 \<mapsto> tok)"
  from tok have tk: "take (length s - length r0) s = tok" by simp
  show ?thesis
  proof (cases "rmatch time_part (r0, ?g1)")
    case Nil
    with assms d tk have "r = r0" "g = ?g1"
      by (auto simp del: rmatch.simps simp add: re_match_def rmatch_pattern)
    moreover from Nil have "\<not> time_follows r0" using time_part_empty_iff by blast
    ultimately show ?thesis using that [OF tok d] by simp
  next
    case (Cons x xs)
    with assms d tk have "(r, g) \<in> set (rmatch time_part (r0, ?g1))"
      by (auto simp del: rmatch.simps simp add: re_match_def rmatch_pattern)
    from time_part_captures [OF this] obtain t where "g = ?g1(2 \<mapsto> t)" "time_end (t @ r) = Some r"
      by blast
    then show ?thesis using that [OF tok d] by simp
  qed
qed


lemma re_search_skip:
  "no_date_within pre rest \<Longrightarrow> re_search pattern (pre @ rest) = re_search pattern rest"
  by (induction pre) (simp_all add: re_match_pattern_None [THEN iffD2])

lemma re_search_found:
  "re_match p s = Some m \<Longrightarrow> re_search p s = Some (snd m)"
  by (cases s) simp_all

lemma re_search_later:
  "re_match p suf \<noteq> None \<Longrightarrow> re_search p (pre @ suf) \<noteq> None"
proof (induction pre)
  case Nil
  then show ?case by (cases suf) auto
next
  case (Cons c cs)
  then show ?case by (cases "re_match p (c # cs @ suf)") auto
qed

lemma re_search_some:
  assumes "re_search p s = Some g"
  obtains pre suf r where "s = pre @ suf" "re_match p suf = Some (r, g)"
  using assms
proof (induction s arbitrary: thesis)
  case Nil
  then show ?case by (cases "re_match p []") auto
next
  case (Cons c cs)
  show ?case
  proof (cases "re_match p (c # cs)")
    case None
    with Cons.prems(2) have "re_search p cs = Some g" by simp
    then obtain pre suf r where "cs = pre @ suf" "re_match p suf = Some (r, g)"
      using Cons.IH by blast
    then show ?thesis using Cons.prems(1) [of "c # pre" suf r] by simp
  next
    case (Some m)
    with Cons.prems(2) have "m = (fst m, g)" by (cases m) simp
    with Some show ?thesis using Cons.prems(1) [of "[]" "c # cs" "fst m"] by simp
  qed
qed

lemma pattern_groups:
  assumes "re_search pattern filename = Some g"
  obtains y s1 m s2 d where "g 1 = Some (y @ s1 @ m @ s2 @ d)"
    "digits 4 y" "opt_sep s1" "digits 2 m" "opt_sep s2" "digits 2 d"
    "g 2 = None \<or> (\<exists>H t1 M t2 S. g 2 = Some (H @ t1 @ M @ t2 @ S)
         \<and> digits 2 H \<and> opt_sep t1 \<and> digits 2 M \<and> opt_sep t2 \<and> digits 2 S)"
proof -
  from assms obtain pre suf r where "re_match pattern suf = Some (r, g)" by (rule re_search_some)
  then obtain tok r0 where tok: "suf = tok @ r0" "date_end suf = Some r0" "g 1 = Some tok"
    and t: "g 2 = None \<or> (\<exists>t. g 2 = Some t \<and> time_end (t @ r) = Some r)"
    by (rule re_match_pattern_Some) blast
  from tok(2) obtain y s1 m s2 d where sh: "suf = y @ s1 @ m @ s2 @ d @ r0"
    "digits 4 y" "opt_sep s1" "digits 2 m" "opt_sep s2" "digits 2 d"
    by (rule date_end_shape)
  with tok(1) have "tok = y @ s1 @ m @ s2 @ d" by simp
  with tok(3) have g1: "g 1 = Some (y @ s1 @ m @ s2 @ d)" by simp
  have "g 2 = None \<or> (\<exists>H t1 M t2 S. g 2 = Some (H @ t1 @ M @ t2 @ S)
         \<and> digits 2 H \<and> opt_sep t1 \<and> digits 2 M \<and> opt_sep t2 \<and> digits 2 S)"
  proof (cases "g 2")
    case None
    then show ?thesis by simp
  next
    case (Some t)
    with t have "time_end (t @ r) = Some r" by simp
    then obtain H t1 M t2 S where "t @ r = H @ t1 @ M @ t2 @ S @ r"
      "digits 2 H" "opt_sep t1" "digits 2 M" "opt_sep t2" "digits 2 S"
      by (rule time_end_shape)
    moreover from this have "t = H @ t1 @ M @ t2 @ S" by simp
    ultimately show ?thesis using Some by blast
  qed
  with g1 sh that show ?thesis by blast
qed

section \<open>\<open>strptime\<close> on strings of digits\<close>








lemma rmatch_Cls_Range [simp]:
  "rmatch (Cls (Range lo hi)) ([], g) = []"
  "rmatch (Cls (Range lo hi)) (c # cs, g) = (if chr_in lo hi c then [(cs, g)] else [])"
  by simp_all

















section \<open>The timestamp extractor: what it returns\<close>





text \<open>
  C2. The separator between year and month and between month and day is optional and is
  one of \<open>-\<close>, \<open>.\<close>, \<open>_\<close>: a file name that holds four digits, two digits and two
  digits so separated has a date token found by the search, that very token when no date
  token starts before it. Any other character that is not a digit, in either separator
  position, keeps the pattern from matching there.
\<close>

theorem separator_characters:
  assumes "digits 4 y" "digits 2 m" "digits 2 d"
  shows "(opt_sep s1 \<and> opt_sep s2 \<longrightarrow>
           (\<exists>g tok. re_search pattern (pre @ y @ s1 @ m @ s2 @ d @ post) = Some g
                    \<and> g 1 = Some tok
                    \<and> (no_date_within pre (y @ s1 @ m @ s2 @ d @ post)
                         \<longrightarrow> tok = y @ s1 @ m @ s2 @ d)))
       \<and> (\<not> is_digit c \<and> \<not> is_sep c \<longrightarrow>
            re_match pattern (y @ c # m @ s2 @ d @ post) = None
            \<and> (opt_sep s1 \<longrightarrow> re_match pattern (y @ s1 @ m @ c # d @ post) = None))"
proof (intro conjI impI)
  assume seps: "opt_sep s1 \<and> opt_sep s2"
  let ?tok = "y @ s1 @ m @ s2 @ d"
  from seps assms have e: "date_end (?tok @ post) = Some post"
    using date_end_token [of y s1 m s2 d post] by simp
  then have "re_match pattern (?tok @ post) \<noteq> None"
    by (simp add: re_match_pattern_None)
  from re_search_later [OF this, of pre]
  obtain g where g: "re_search pattern (pre @ ?tok @ post) = Some g" by auto
  then obtain y' t1 m' t2 d' where g1: "g 1 = Some (y' @ t1 @ m' @ t2 @ d')"
    by (rule pattern_groups)
  have "no_date_within pre (?tok @ post) \<longrightarrow> y' @ t1 @ m' @ t2 @ d' = ?tok"
  proof
    assume "no_date_within pre (?tok @ post)"
    from re_search_skip [OF this] g have "re_search pattern (?tok @ post) = Some g" by simp
    moreover from e obtain r0 g0 where m0: "re_match pattern (?tok @ post) = Some (r0, g0)"
      by (cases "re_match pattern (?tok @ post)") (auto simp: re_match_pattern_None)
    ultimately have "g0 = g" using re_search_found [OF m0] by simp
    with m0 have "re_match pattern (?tok @ post) = Some (r0, g)" by simp
    then obtain tok r1 where "?tok @ post = tok @ r1" "date_end (?tok @ post) = Some r1"
      "g 1 = Some tok"
      by (rule re_match_pattern_Some)
    with e g1 show "y' @ t1 @ m' @ t2 @ d' = ?tok" by simp
  qed
  with g g1 show "\<exists>g tok. re_search pattern (pre @ y @ s1 @ m @ s2 @ d @ post) = Some g
                    \<and> g 1 = Some tok
                    \<and> (no_date_within pre (y @ s1 @ m @ s2 @ d @ post)
                         \<longrightarrow> tok = y @ s1 @ m @ s2 @ d)"
    by auto
next
  assume c: "\<not> is_digit c \<and> \<not> is_sep c"
  from assms(1) obtain y1 y2 where y: "y = y1 @ y2" "digits 2 y1" "digits 2 y2" by (rule digits4E)
  have "date_end (y @ c # m @ s2 @ d @ post) = None"
    using c y by (simp add: date_end_def take2_digits foreign_separator(1))
  then show "re_match pattern (y @ c # m @ s2 @ d @ post) = None"
    by (simp add: re_match_pattern_None)
  assume "opt_sep s1"
  then have "date_end (y @ s1 @ m @ c # d @ post) = None"
    using c y assms(2) by (simp add: date_end_def take2_digits foreign_separator(2))
  then show "re_match pattern (y @ s1 @ m @ c # d @ post) = None"
    by (simp add: re_match_pattern_None)
qed

text \<open>
  With \<open>/\<close> or a space as the separator no date token is found.
\<close>

theorem separator_characters_counterexample:
  "digits 4 ''2023'' \<and> digits 2 ''04'' \<and> digits 2 ''15'' \<and> \<not> is_digit (CHR ''/'')
   \<and> re_search pattern (''2023'' @ ''/'' @ ''04'' @ ''/'' @ ''15'' @ ''.jpg'') = None
   \<and> extract_datetime_from_filename ''2023/04/15.jpg'' = None
   \<and> \<not> is_digit (CHR '' '')
   \<and> extract_datetime_from_filename ''2023 04 15.jpg'' = None"
  by code_simp

theorem separator_characters_witness:
  "(\<exists>g. re_search pattern ''IMG_2023.04_15.jpg'' = Some g \<and> g 1 = Some ''2023.04_15'')
   \<and> re_match pattern ''2023/04_15.jpg'' = None
   \<and> re_match pattern ''2023.04/15.jpg'' = None"
proof -
  have h: "digits 4 ''2023''" "digits 2 ''04''" "digits 2 ''15''"
    by code_simp+
  have s: "opt_sep ''.'' \<and> opt_sep ''_''"
    by code_simp
  have n: "no_date_within ''IMG_'' (''2023'' @ ''.'' @ ''04'' @ ''_'' @ ''15'' @ ''.jpg'')"
    by code_simp
  have c: "\<not> is_digit (CHR ''/'') \<and> \<not> is_sep (CHR ''/'')"
    by code_simp
  show ?thesis
    using separator_characters [OF h, of "''.''" "''_''" "''IMG_''" "''.jpg''" "CHR ''/''"] s n c
    by auto
qed






section \<open>The batch processor: one file\<close>

lemma process_file_write:
  assumes "extract_datetime_from_filename filename = Some dt"
    and "output_path directory processed_dir in_place filename = Some output_file"
    and "run_tool e (trace st) (Query (path_join directory filename)) = Some res"
    and "py_strip (stdout res) = [] \<or> replace_old_metadata"
    and "\<forall>a \<in> set (placement move in_place (path_join directory filename) output_file).
           fs_call e (trace st @ [Query (path_join directory filename)]) a"
  shows "process_file e directory processed_dir move in_place replace_old_metadata filename st =
           write_metadata e replace_old_metadata (stdout res) output_file (strftime_date dt)
             (st\<lparr>total_files := total_files st + 1,
                 trace := trace st @ Query (path_join directory filename)
                          # placement move in_place (path_join directory filename) output_file\<rparr>)"
  using assms
  by (auto simp: process_file_def output_path_def placement_def place_file_def issue_def Let_def
           split: if_splits option.splits)

text \<open>
  C6. A file whose name yields a date and whose metadata query prints something other than
  white space is, with the replace flag off, counted as skipped for existing metadata and
  nothing else happens to it: the state after the file is the state before with the total
  and that one outcome counter incremented, and the only call issued is the query itself
  (no copy, no move, no write).
\<close>

theorem skip_existing_metadata_no_side_effects:
  assumes "extract_datetime_from_filename filename = Some dt"
    and "in_place \<or> processed_dir \<noteq> None"
    and "run_tool e (trace st) (Query (path_join directory filename)) = Some res"
    and "py_strip (stdout res) \<noteq> []"
  shows "process_file e directory processed_dir move in_place False filename st =
           Inr (st\<lparr>total_files := total_files st + 1,
                   files_skipped_existing_metadata := files_skipped_existing_metadata st + 1,
                   trace := trace st @ [Query (path_join directory filename)]\<rparr>)"
  using assms
  by (auto simp: process_file_def issue_def Let_def split: if_splits option.splits)

theorem skip_existing_metadata_no_side_effects_witness:
  "process_file (test_env [] ''2020:01:01 10:00:00'' 0) ''in'' (Some ''out'') False False False
      ''20230415_a.jpg'' initial_state
   = Inr (initial_state\<lparr>total_files := 1, files_skipped_existing_metadata := 1,
                         trace := [Query ''in/20230415_a.jpg'']\<rparr>)"
proof -
  have h1: "extract_datetime_from_filename ''20230415_a.jpg''
              = Some \<lparr>year = 2023, month = 4, day = 15, hour = 0, minute = 0, second = 0\<rparr>"
    by code_simp
  have h2: "False \<or> Some ''out'' \<noteq> None" by simp
  have h3: "run_tool (test_env [] ''2020:01:01 10:00:00'' 0) (trace initial_state)
              (Query (path_join ''in'' ''20230415_a.jpg''))
            = Some \<lparr>returncode = 0, stdout = ''2020:01:01 10:00:00'', stderr = []\<rparr>"
    by (simp add: test_env_def)
  have h4: "py_strip (stdout \<lparr>returncode = 0, stdout = ''2020:01:01 10:00:00'', stderr = []\<rparr>) \<noteq> []"
    by (simp add: py_strip_def is_space_def)
  show ?thesis
    using skip_existing_metadata_no_side_effects [OF h1 h2 h3 h4, of False]
    by (simp add: initial_state_def path_join_def)
qed

text \<open>
  C7. When the write succeeds, exactly one of the two success counters goes up by one, and
  the query made on the input file before placement decides which: files-metadata-replaced
  when the query printed something (the file got this far only because replacing was
  enabled), files-changed otherwise. No other outcome counter moves.
\<close>

theorem write_success_counts_once:
  assumes "extract_datetime_from_filename filename = Some dt"
    and "output_path directory processed_dir in_place filename = Some output_file"
    and "run_tool e (trace st) (Query (path_join directory filename)) = Some res"
    and "py_strip (stdout res) = [] \<or> replace_old_metadata"
    and "\<forall>a \<in> set (placement move in_place (path_join directory filename) output_file).
           fs_call e (trace st @ [Query (path_join directory filename)]) a"
    and "run_tool e (trace st @ Query (path_join directory filename)
                       # placement move in_place (path_join directory filename) output_file)
           (Write output_file (strftime_date dt) (strftime_date dt)) = Some done"
    and "returncode done = 0"
  shows "\<exists>st'. process_file e directory processed_dir move in_place replace_old_metadata filename st
                 = Inr st'
           \<and> (if py_strip (stdout res) \<noteq> []
               then files_metadata_replaced st' = files_metadata_replaced st + 1
                    \<and> files_changed st' = files_changed st
               else files_changed st' = files_changed st + 1
                    \<and> files_metadata_replaced st' = files_metadata_replaced st)
           \<and> files_changed st' + files_metadata_replaced st'
               = files_changed st + files_metadata_replaced st + 1
           \<and> files_skipped_no_date st' = files_skipped_no_date st
           \<and> files_skipped_existing_metadata st' = files_skipped_existing_metadata st
           \<and> files_error st' = files_error st
           \<and> total_files st' = total_files st + 1"
  unfolding process_file_write [OF assms(1-5)]
  using assms(4,6,7)
  by (auto simp: write_metadata_def issue_def Let_def)

theorem write_success_counts_once_witness:
  "\<exists>st'. process_file (test_env [] ''2020:01:01'' 0) ''in'' (Some ''out'') True False True
            ''2023-04-16 10.11.12.jpg'' initial_state = Inr st'
         \<and> files_metadata_replaced st' = 1 \<and> files_changed st' = 0 \<and> files_error st' = 0
         \<and> total_files st' = 1"
proof -
  let ?e = "test_env [] ''2020:01:01'' 0"
  let ?res = "\<lparr>returncode = 0, stdout = ''2020:01:01'', stderr = []\<rparr>"
  let ?dt = "\<lparr>year = 2023, month = 4, day = 16, hour = 10, minute = 11, second = 12\<rparr>"
  have h1: "extract_datetime_from_filename ''2023-04-16 10.11.12.jpg'' = Some ?dt"
    by code_simp
  have h2: "output_path ''in'' (Some ''out'') False ''2023-04-16 10.11.12.jpg''
              = Some ''out/2023-04-16 10.11.12.jpg''"
    by (simp add: output_path_def path_join_def)
  have h3: "run_tool ?e (trace initial_state) (Query (path_join ''in'' ''2023-04-16 10.11.12.jpg''))
              = Some ?res"
    by (simp add: test_env_def)
  have h4: "py_strip (stdout ?res) = [] \<or> True" by simp
  have h5: "\<forall>a \<in> set (placement True False (path_join ''in'' ''2023-04-16 10.11.12.jpg'')
                         ''out/2023-04-16 10.11.12.jpg'').
              fs_call ?e (trace initial_state @ [Query (path_join ''in'' ''2023-04-16 10.11.12.jpg'')]) a"
    by (simp add: test_env_def)
  have h6: "run_tool ?e (trace initial_state @ Query (path_join ''in'' ''2023-04-16 10.11.12.jpg'')
                 # placement True False (path_join ''in'' ''2023-04-16 10.11.12.jpg'')
                     ''out/2023-04-16 10.11.12.jpg'')
              (Write ''out/2023-04-16 10.11.12.jpg'' (strftime_date ?dt) (strftime_date ?dt))
            = Some ?res"
    by (simp add: test_env_def)
  have h7: "returncode ?res = 0" by simp
  have ne: "py_strip (stdout ?res) \<noteq> []" by (simp add: py_strip_def is_space_def)
  show ?thesis
    using write_success_counts_once [OF h1 h2 h3 h4 h5 h6 h7] ne
    by (auto simp: initial_state_def)
qed

text \<open>
  C8. When the tool ends the write with a non-zero status, the failure stays with that
  file: files-error goes up by one, the copy or move already made stays in the trace with
  nothing issued after the write to undo it, and the loop goes on with the remaining
  entries from that state.
\<close>

theorem write_failure_contained:
  assumes "extract_datetime_from_filename filename = Some dt"
    and "output_path directory processed_dir in_place filename = Some output_file"
    and "run_tool e (trace st) (Query (path_join directory filename)) = Some res"
    and "py_strip (stdout res) = [] \<or> replace_old_metadata"
    and "\<forall>a \<in> set (placement move in_place (path_join directory filename) output_file).
           fs_call e (trace st @ [Query (path_join directory filename)]) a"
    and "run_tool e (trace st @ Query (path_join directory filename)
                       # placement move in_place (path_join directory filename) output_file)
           (Write output_file (strftime_date dt) (strftime_date dt)) = Some done"
    and "returncode done \<noteq> 0"
  shows "process_entries e directory processed_dir move in_place replace_old_metadata
           (filename # rest) st =
         process_entries e directory processed_dir move in_place replace_old_metadata rest
           (st\<lparr>total_files := total_files st + 1,
               files_error := files_error st + 1,
               trace := trace st @ Query (path_join directory filename)
                        # placement move in_place (path_join directory filename) output_file
                        @ [Write output_file (strftime_date dt) (strftime_date dt)]\<rparr>)"
proof -
  let ?t = "trace st @ Query (path_join directory filename)
                        # placement move in_place (path_join directory filename) output_file"
  let ?w = "Write output_file (strftime_date dt) (strftime_date dt)"
  have "process_file e directory processed_dir move in_place replace_old_metadata filename st =
          Inr (st\<lparr>total_files := total_files st + 1, files_error := files_error st + 1,
                  trace := ?t @ [?w]\<rparr>)"
    unfolding process_file_write [OF assms(1-5)]
    using assms(6,7)
    by (simp add: write_metadata_def issue_def Let_def pstate.equality)
  then show ?thesis by simp
qed

theorem write_failure_contained_witness:
  "process_entries (test_env [] [] 1) ''in'' (Some ''out'') False False False
     [''20230415_a.jpg'', ''vacation.jpg''] initial_state
   = Inr (initial_state\<lparr>total_files := 2, files_skipped_no_date := 1, files_error := 1,
            trace := [Query ''in/20230415_a.jpg'',
                      Copy2 ''in/20230415_a.jpg'' ''out/20230415_a.jpg'',
                      Write ''out/20230415_a.jpg'' ''2023:04:15 00:00:00'' ''2023:04:15 00:00:00'']\<rparr>)"
proof -
  let ?e = "test_env [] [] 1"
  let ?dt = "\<lparr>year = 2023, month = 4, day = 15, hour = 0, minute = 0, second = 0\<rparr>"
  let ?q = "\<lparr>returncode = 0, stdout = [], stderr = []\<rparr>"
  let ?w = "\<lparr>returncode = 1, stdout = [], stderr = []\<rparr>"
  have h1: "extract_datetime_from_filename ''20230415_a.jpg'' = Some ?dt"
    by code_simp
  have h2: "output_path ''in'' (Some ''out'') False ''20230415_a.jpg'' = Some ''out/20230415_a.jpg''"
    by (simp add: output_path_def path_join_def)
  have h3: "run_tool ?e (trace initial_state) (Query (path_join ''in'' ''20230415_a.jpg'')) = Some ?q"
    by (simp add: test_env_def)
  have h4: "py_strip (stdout ?q) = [] \<or> False" by (simp add: py_strip_def)
  have h5: "\<forall>a \<in> set (placement False False (path_join ''in'' ''20230415_a.jpg'')
                         ''out/20230415_a.jpg'').
              fs_call ?e (trace initial_state @ [Query (path_join ''in'' ''20230415_a.jpg'')]) a"
    by (simp add: test_env_def)
  have h6: "run_tool ?e (trace initial_state @ Query (path_join ''in'' ''20230415_a.jpg'')
                 # placement False False (path_join ''in'' ''20230415_a.jpg'') ''out/20230415_a.jpg'')
              (Write ''out/20230415_a.jpg'' (strftime_date ?dt) (strftime_date ?dt)) = Some ?w"
    by (simp add: test_env_def)
  have h7: "returncode ?w \<noteq> 0" by simp
  have v: "extract_datetime_from_filename ''vacation.jpg'' = None" by code_simp
  have sf: "strftime_date ?dt = ''2023:04:15 00:00:00''" by code_simp
  show ?thesis
    using write_failure_contained [OF h1 h2 h3 h4 h5 h6 h7, of "[''vacation.jpg'']"] v
    by (simp add: initial_state_def path_join_def placement_def process_file_def output_path_def sf)
qed

section \<open>The batch processor: the whole run\<close>

lemma process_file_counts:
  assumes "process_file e directory processed_dir move in_place replace_old_metadata filename st
             = Inr st'"
  shows "total_files st' = total_files st + 1 \<and> outcome_sum st' = outcome_sum st + 1"
  using assms
  by (auto simp: process_file_def place_file_def write_metadata_def issue_def outcome_sum_def Let_def
           split: if_splits option.splits sum.splits)

lemma process_entries_counts:
  assumes "process_entries e directory processed_dir move in_place replace_old_metadata entries st
             = Inr st'"
  shows "total_files st' = total_files st + length entries
         \<and> outcome_sum st' = outcome_sum st + length entries"
  using assms
proof (induction entries arbitrary: st)
  case Nil
  then show ?case by simp
next
  case (Cons f fs)
  from Cons.prems obtain st1 where
    one: "process_file e directory processed_dir move in_place replace_old_metadata f st = Inr st1"
    and more: "process_entries e directory processed_dir move in_place replace_old_metadata fs st1
                 = Inr st'"
    by (auto split: sum.splits)
  from process_file_counts [OF one] Cons.IH [OF more] show ?case by simp
qed

lemma make_destination_counts:
  "make_destination e processed_dir in_place = Inr st \<Longrightarrow> total_files st = 0 \<and> outcome_sum st = 0"
  by (auto simp: make_destination_def initial_state_def issue_def outcome_sum_def
           split: option.splits if_splits)

text \<open>
  C9. A run that completes returns counters in which total-files is the sum of the five
  outcome counters, files-changed, files-metadata-replaced, files-skipped-no-date,
  files-skipped-existing-metadata and files-error: each entry of the listing adds one to
  the total and one to exactly one outcome.
\<close>

theorem total_is_sum_of_outcomes:
  assumes "process_images e directory processed_dir move in_place replace_old_metadata = Inr st"
    and "listdir e directory = Some entries"
  shows "total_files st = files_changed st + files_metadata_replaced st + files_skipped_no_date st
                    + files_skipped_existing_metadata st + files_error st
         \<and> total_files st = length entries"
proof -
  from assms obtain st0 where
    dest: "make_destination e processed_dir in_place = Inr st0"
    and loop: "process_entries e directory processed_dir move in_place replace_old_metadata entries st0
                 = Inr st"
    by (auto simp: process_images_def split: sum.splits)
  from make_destination_counts [OF dest] process_entries_counts [OF loop]
  show ?thesis by (simp add: outcome_sum_def)
qed

theorem total_is_sum_of_outcomes_witness:
  "\<exists>st. process_images (test_env [''20230415_a.jpg'', ''vacation.jpg''] '' '' 0)
            ''in'' (Some ''out'') False False False = Inr st
        \<and> total_files st = 2 \<and> files_changed st = 1 \<and> files_skipped_no_date st = 1
        \<and> files_metadata_replaced st + files_skipped_existing_metadata st + files_error st = 0"
proof -
  let ?e = "test_env [''20230415_a.jpg'', ''vacation.jpg''] '' '' 0"
  have d: "extract_datetime_from_filename ''20230415_a.jpg''
             = Some \<lparr>year = 2023, month = 4, day = 15, hour = 0, minute = 0, second = 0\<rparr>"
    by code_simp
  have v: "extract_datetime_from_filename ''vacation.jpg'' = None"
    by code_simp
  have s: "py_strip '' '' = []"
    by (simp add: py_strip_def is_space_def)
  have l: "listdir ?e ''in'' = Some [''20230415_a.jpg'', ''vacation.jpg'']"
    by (simp add: test_env_def)
  obtain st where run: "process_images ?e ''in'' (Some ''out'') False False False = Inr st"
    and ch: "files_changed st = 1" and sk: "files_skipped_no_date st = 1"
    by (simp add: process_images_def make_destination_def process_file_def place_file_def
          write_metadata_def issue_def initial_state_def test_env_def d v s Let_def)
  from total_is_sum_of_outcomes [OF run l] run ch sk show ?thesis
    by simp
qed

section \<open>The batch processor: what is issued\<close>

lemma process_file_trace:
  assumes "process_file e directory processed_dir move in_place replace_old_metadata filename st = r"
    and "a \<in> set (trace (final_state r))"
  shows "a \<in> set (trace st) \<or> a = Query (path_join directory filename)
         \<or> (\<exists>out. output_path directory processed_dir in_place filename = Some out
              \<and> (a = Move (path_join directory filename) out \<and> move \<and> \<not> in_place
                  \<or> a = Copy2 (path_join directory filename) out \<and> \<not> move \<and> \<not> in_place
                  \<or> (\<exists>dt. extract_datetime_from_filename filename = Some dt
                        \<and> a = Write out (strftime_date dt) (strftime_date dt))))"
  using assms
  by (auto simp: process_file_def place_file_def write_metadata_def issue_def output_path_def
                 final_state_def Let_def
           split: if_splits option.splits sum.splits)

lemma process_entries_trace:
  assumes "process_entries e directory processed_dir move in_place replace_old_metadata entries st = r"
    and "a \<in> set (trace (final_state r))"
  shows "a \<in> set (trace st) \<or> (\<exists>filename \<in> set entries. a = Query (path_join directory filename)
         \<or> (\<exists>out. output_path directory processed_dir in_place filename = Some out
              \<and> (a = Move (path_join directory filename) out \<and> move \<and> \<not> in_place
                  \<or> a = Copy2 (path_join directory filename) out \<and> \<not> move \<and> \<not> in_place
                  \<or> (\<exists>dt. extract_datetime_from_filename filename = Some dt
                        \<and> a = Write out (strftime_date dt) (strftime_date dt)))))"
  using assms
proof (induction entries arbitrary: st)
  case Nil
  then show ?case by (auto simp: final_state_def)
next
  case (Cons f fs)
  let ?one = "process_file e directory processed_dir move in_place replace_old_metadata f st"
  show ?case
  proof (cases ?one)
    case (Inl err)
    with Cons.prems have "a \<in> set (trace (final_state ?one))"
      by auto
    from process_file_trace [OF refl this] show ?thesis by auto
  next
    case (Inr st')
    with Cons.prems
    have "process_entries e directory processed_dir move in_place replace_old_metadata fs st' = r"
      by simp
    from Cons.IH [OF this Cons.prems(2)]
    consider "a \<in> set (trace st')"
      | "\<exists>filename \<in> set fs. a = Query (path_join directory filename)
         \<or> (\<exists>out. output_path directory processed_dir in_place filename = Some out
              \<and> (a = Move (path_join directory filename) out \<and> move \<and> \<not> in_place
                  \<or> a = Copy2 (path_join directory filename) out \<and> \<not> move \<and> \<not> in_place
                  \<or> (\<exists>dt. extract_datetime_from_filename filename = Some dt
                        \<and> a = Write out (strftime_date dt) (strftime_date dt))))"
      by blast
    then show ?thesis
    proof cases
      case 1
      with Inr have "a \<in> set (trace (final_state ?one))"
        by (simp add: final_state_def)
      from process_file_trace [OF refl this] show ?thesis by auto
    next
      case 2
      then show ?thesis by auto
    qed
  qed
qed

lemma process_images_trace:
  assumes "listdir e directory = Some entries"
    and "a \<in> set (trace (final_state
             (process_images e directory processed_dir move in_place replace_old_metadata)))"
  shows "(\<exists>p. a = Makedirs p \<and> processed_dir = Some p \<and> p \<noteq> [] \<and> \<not> in_place)
         \<or> (\<exists>filename \<in> set entries. a = Query (path_join directory filename)
         \<or> (\<exists>out. output_path directory processed_dir in_place filename = Some out
              \<and> (a = Move (path_join directory filename) out \<and> move \<and> \<not> in_place
                  \<or> a = Copy2 (path_join directory filename) out \<and> \<not> move \<and> \<not> in_place
                  \<or> (\<exists>dt. extract_datetime_from_filename filename = Some dt
                        \<and> a = Write out (strftime_date dt) (strftime_date dt)))))"
proof (cases "make_destination e processed_dir in_place")
  case (Inl err)
  with assms(2) show ?thesis
    by (auto simp: process_images_def make_destination_def final_state_def issue_def initial_state_def
             split: option.splits if_splits)
next
  case (Inr st)
  then have st: "\<And>b. b \<in> set (trace st) \<Longrightarrow>
                   (\<exists>p. b = Makedirs p \<and> processed_dir = Some p \<and> p \<noteq> [] \<and> \<not> in_place)"
    by (auto simp: make_destination_def issue_def initial_state_def split: option.splits if_splits)
  from Inr assms
  have "a \<in> set (trace (final_state
          (process_entries e directory processed_dir move in_place replace_old_metadata entries st)))"
    by (simp add: process_images_def)
  from process_entries_trace [OF refl this] st show ?thesis by blast
qed



text \<open>
  C10. With in-place off and no destination directory, a listing that has a first entry
  makes the run end in a \<open>TypeError\<close> raised while the output path of that entry is
  computed: total-files is 1, every other counter is 0 and nothing has been issued, no
  query and no placement; the file name and the environment's answers play no part.
  And in any run, a destination directory is created only if one was supplied and
  in-place is off.
\<close>

theorem missing_destination_raises:
  assumes "listdir e directory = Some (filename # rest)"
  shows "process_images e directory None move False replace_old_metadata
           = Inl (TypeError, initial_state\<lparr>total_files := 1\<rparr>)
         \<and> trace (initial_state\<lparr>total_files := 1\<rparr>) = []
         \<and> (\<forall>processed_dir move' in_place replace' p.
              Makedirs p \<in> set (trace (final_state
                 (process_images e directory processed_dir move' in_place replace')))
              \<longrightarrow> processed_dir = Some p \<and> \<not> in_place)"
proof (intro conjI allI impI)
  show "process_images e directory None move False replace_old_metadata
           = Inl (TypeError, initial_state\<lparr>total_files := 1\<rparr>)"
    using assms
    by (simp add: process_images_def make_destination_def process_file_def initial_state_def)
  show "trace (initial_state\<lparr>total_files := 1\<rparr>) = []"
    by (simp add: initial_state_def)
next
  fix processed_dir move' in_place replace' p
  assume "Makedirs p \<in> set (trace (final_state
                 (process_images e directory processed_dir move' in_place replace')))"
  from process_images_trace [OF assms this]
  show "processed_dir = Some p" and "\<not> in_place" by auto
qed

theorem missing_destination_raises_witness:
  "process_images (test_env [''20230415_a.jpg''] [] 0) ''in'' None False False False
     = Inl (TypeError, \<lparr>total_files = 1, files_changed = 0, files_skipped_no_date = 0,
              files_skipped_existing_metadata = 0, files_metadata_replaced = 0, files_error = 0,
              trace = []\<rparr>)
   \<and> Makedirs ''out'' \<in> set (trace (final_state
        (process_images (test_env [''20230415_a.jpg''] [] 0) ''in'' (Some ''out'') False False False)))"
proof -
  let ?e = "test_env [''20230415_a.jpg''] [] 0"
  have l: "listdir ?e ''in'' = Some (''20230415_a.jpg'' # [])"
    by (simp add: test_env_def)
  have d: "extract_datetime_from_filename ''20230415_a.jpg''
             = Some \<lparr>year = 2023, month = 4, day = 15, hour = 0, minute = 0, second = 0\<rparr>"
    by code_simp
  have m: "Makedirs ''out'' \<in> set (trace (final_state
        (process_images ?e ''in'' (Some ''out'') False False False)))"
    by (simp add: process_images_def make_destination_def process_file_def place_file_def
          write_metadata_def issue_def initial_state_def test_env_def final_state_def d Let_def)
  note r = missing_destination_raises [OF l, of False False]
  from r [THEN conjunct2, THEN conjunct2, rule_format, OF m]
  have "Some ''out'' = Some ''out'' \<and> \<not> False" .
  with r [THEN conjunct1] m show ?thesis
    by (simp add: initial_state_def)
qed

end
